theory Spec2Isabelle
  imports Main
begin

section \<open>C strings and memory faults\<close>

text \<open>
  A C string argument is modelled by its contents: the characters before the terminating
  NUL, as a \<open>string\<close>. Index \<open>-1\<close> and the indices after the terminator lie outside
  what the function may read unless the model says otherwise. A read or write outside an
  object is undefined behaviour in C; the model returns it as an error value, so that
  every such access is a visible branch.
\<close>

datatype error =
    ReadBeforeStart   \<comment> \<open>read of \<open>str[-1]\<close>\<close>
  | ReadPastEnd       \<comment> \<open>read after the last byte of the object\<close>
  | WritePastEnd      \<comment> \<open>write after the last byte of the destination\<close>
  | NullWrite         \<comment> \<open>write through a NULL buffer\<close>
  | NegativeSize      \<comment> \<open>a negative \<open>int\<close> used as an array or copy size\<close>

abbreviation NUL :: char where "NUL \<equiv> CHR 0x00"
abbreviation TAB :: char where "TAB \<equiv> CHR 0x09"
abbreviation LF :: char where "LF \<equiv> CHR 0x0A"
abbreviation CR :: char where "CR \<equiv> CHR 0x0D"

text \<open>\<open>isspace\<close> of \<open>ctype.h\<close> in the C locale: space, \<open>\t \n \v \f \r\<close>.\<close>

definition isspace :: "char \<Rightarrow> bool" where
  "isspace c \<longleftrightarrow>
     c = CHR 0x20 \<or> c = TAB \<or> c = LF \<or> c = CHR 0x0B \<or> c = CHR 0x0C \<or> c = CR"

section \<open>String utilities\<close>

subsection \<open>rstrip\<close>

text \<open>
  \<^verbatim>\<open>while (isspace(str[i - 1])) i--;\<close>
  The loop has no lower bound on \<open>i\<close>: with \<open>i = 0\<close> it reads \<open>str[-1]\<close>.
  The result is the value of \<open>i\<close> at which the loop stops.
\<close>

fun rstrip_loop :: "string \<Rightarrow> nat \<Rightarrow> error + nat" where
  "rstrip_loop str 0 = Inl ReadBeforeStart"
| "rstrip_loop str (Suc k) =
     (if isspace (str ! k) then rstrip_loop str k else Inr (Suc k))"

text \<open>
  \<open>rstrip\<close> works in place; the model returns the new contents. \<open>None\<close> is the NULL
  pointer. \<open>str[i] = '\0'\<close> cuts the string at \<open>i\<close>.
\<close>

definition rstrip :: "string option \<Rightarrow> error + string option" where
  "rstrip p =
     (case p of
        None \<Rightarrow> Inr None
      | Some str \<Rightarrow>
          (let i = length str in
           if i > 0 then
             (case rstrip_loop str i of
                Inl e \<Rightarrow> Inl e
              | Inr k \<Rightarrow> Inr (Some (take k str)))
           else Inr (Some str)))"

subsection \<open>strip\<close>

text \<open>
  \<open>strip\<close> reads \<open>strlen(str) + 100\<close> bytes, so it reads the terminator and 99 bytes
  after it. Its argument is therefore modelled as the bytes of the whole object that
  \<open>str\<close> points to, terminator and what follows it included.
\<close>

definition strlen :: "char list \<Rightarrow> error + nat" where
  "strlen obj =
     (if NUL \<in> set obj then Inr (length (takeWhile (\<lambda>c. c \<noteq> NUL) obj))
      else Inl ReadPastEnd)"

text \<open>
  \<^verbatim>\<open>for (int i = 0; i < length; i++)
      if (str[i] != '\n' && str[i] != '\t' && str[i] != '\r')
          stripped_str[j++] = str[i];\<close>
  The first argument after the object counts the iterations still to run; \<open>out\<close> is
  \<open>stripped_str[0..j-1]\<close>, so \<open>j = length out\<close>. Since \<open>j \<le> i < length\<close> inside the
  loop, the writes of the loop stay inside \<open>malloc(length)\<close>.
\<close>

fun strip_loop :: "char list \<Rightarrow> nat \<Rightarrow> nat \<Rightarrow> char list \<Rightarrow> error + char list" where
  "strip_loop obj 0 i out = Inr out"
| "strip_loop obj (Suc n) i out =
     (if i < length obj then
        strip_loop obj n (Suc i)
          (if obj ! i \<noteq> LF \<and> obj ! i \<noteq> TAB \<and> obj ! i \<noteq> CR then out @ [obj ! i] else out)
      else Inl ReadPastEnd)"

text \<open>
  After the loop \<open>stripped_str[j] = '\0'\<close> is written; the destination has \<open>length\<close>
  bytes, so \<open>j = length\<close> is one past its end. The caller reads the result as a C
  string: up to the first NUL.
\<close>

definition strip :: "char list option \<Rightarrow> error + string option" where
  "strip p =
     (case p of
        None \<Rightarrow> Inr None
      | Some obj \<Rightarrow>
          (case strlen obj of
             Inl e \<Rightarrow> Inl e
           | Inr n \<Rightarrow>
               (let len = n + 100 in
                case strip_loop obj len 0 [] of
                  Inl e \<Rightarrow> Inl e
                | Inr out \<Rightarrow>
                    if length out < len
                    then Inr (Some (takeWhile (\<lambda>c. c \<noteq> NUL) out))
                    else Inl WritePastEnd)))"

section \<open>Output transformer\<close>

text \<open>\<open>strstr\<close>: the index of the first occurrence of the needle, \<open>None\<close> for NULL.\<close>

fun strstr :: "string \<Rightarrow> string \<Rightarrow> nat option" where
  "strstr [] needle = (if needle = [] then Some 0 else None)"
| "strstr (c # cs) needle =
     (if take (length needle) (c # cs) = needle then Some 0
      else map_option Suc (strstr cs needle))"

text \<open>
  \<^verbatim>\<open>sub = strstr(str, ", "); if (sub != NULL) strncpy(sub, "--", 2);\<close>
\<close>

definition mca_prepass :: "string \<Rightarrow> string" where
  "mca_prepass str =
     (case strstr str '', '' of
        None \<Rightarrow> str
      | Some k \<Rightarrow> take k str @ ''--'' @ drop (k + 2) str)"

definition mca_parsed_size :: nat where
  "mca_parsed_size = 2048"

text \<open>
  The output buffer is written strictly left to right: every branch writes
  \<open>buffer[j]\<close>, \<open>buffer[++j]\<close>, ... and leaves \<open>j\<close> one past the last byte written
  (the \<open>\r\<close>-after-\<open>\n\<close> branch writes nothing: its \<open>j--\<close> is undone by the
  \<open>j++\<close> that ends the iteration). The buffer is therefore modelled by the list of bytes
  written so far, with \<open>j = length buf\<close>, and \<open>put\<close> appends, refusing a write at
  index \<open>mca_parsed_size\<close> or beyond.
\<close>

definition put :: "string \<Rightarrow> string \<Rightarrow> error + string" where
  "put buf cs =
     (if length buf + length cs \<le> mca_parsed_size then Inr (buf @ cs) else Inl WritePastEnd)"

function mca_loop :: "string \<Rightarrow> nat \<Rightarrow> string \<Rightarrow> error + string" where
  \<open>mca_loop str i buf =
     (if \<not> i < length str then Inr buf
      else if str ! i = CHR ''='' then
        (case put buf ''":"'' of Inl e \<Rightarrow> Inl e | Inr b \<Rightarrow> mca_loop str (Suc i) b)
      else if str ! i = CHR '','' then
        (case put buf ''","'' of Inl e \<Rightarrow> Inl e | Inr b \<Rightarrow> mca_loop str (Suc i) b)
      else if str ! i = CR then
        (if i = 0 then Inl ReadBeforeStart
         else if str ! (i - 1) = LF then mca_loop str (i + 2) buf
         else (case put buf ''"'' of Inl e \<Rightarrow> Inl e | Inr b \<Rightarrow> mca_loop str (Suc i) b))
      else if str ! i = LF then
        (case put buf '',"'' of Inl e \<Rightarrow> Inl e | Inr b \<Rightarrow> mca_loop str (Suc i) b)
      else
        (case put buf [str ! i] of Inl e \<Rightarrow> Inl e | Inr b \<Rightarrow> mca_loop str (Suc i) b))\<close>
  by pat_completeness auto
termination
  by (relation "measure (\<lambda>(str, i, buf). length str - i)") auto

declare mca_loop.simps [simp del]

text \<open>
  The closing \<open>"}]\<close> and the terminator are four more bytes. \<open>length\<close> is taken before
  the pre-pass, which does not change it.
\<close>

definition mca_to_json :: "string \<Rightarrow> error + string" where
  \<open>mca_to_json str =
     (case mca_loop (mca_prepass str) 0 ''[{"'' of
        Inl e \<Rightarrow> Inl e
      | Inr b \<Rightarrow>
          (case put b (''"}]'' @ [NUL]) of
             Inl e \<Rightarrow> Inl e
           | Inr full \<Rightarrow> Inr (butlast full)))\<close>

text \<open>
  The same function from \<open>buffer[0] = '['\<close> on, that is without the pre-pass: the
  character-by-character pass over the string as it is, between the opening \<open>[{"\<close>
  and the closing \<open>"}]\<close>.
\<close>

definition mca_pass :: "string \<Rightarrow> error + string" where
  \<open>mca_pass str =
     (case mca_loop str 0 ''[{"'' of
        Inl e \<Rightarrow> Inl e
      | Inr b \<Rightarrow>
          (case put b (''"}]'' @ [NUL]) of
             Inl e \<Rightarrow> Inl e
           | Inr full \<Rightarrow> Inr (butlast full)))\<close>

section \<open>Transport library\<close>

text \<open>
  The secure-shell library is an external collaborator. What it answers is an input of
  the model: each function below takes a record of the answers the library gives to the
  calls the function makes. The return codes are those of the library's header
  \<open>libssh.h\<close> (\<open>SSH_OK\<close>, \<open>SSH_ERROR\<close>, \<open>SSH_AUTH_SUCCESS\<close> and the
  \<open>ssh_scp_request_types\<close>); \<open>CONNECTION_OK\<close> and \<open>SCP_READ_SIZE\<close> are macros of
  \<open>device.h\<close>.
\<close>

definition SSH_OK :: int where "SSH_OK = 0"
definition SSH_ERROR :: int where "SSH_ERROR = - 1"
definition SSH_AUTH_SUCCESS :: int where "SSH_AUTH_SUCCESS = 0"
definition SSH_SCP_REQUEST_NEWFILE :: int where "SSH_SCP_REQUEST_NEWFILE = 2"
definition SSH_SCP_REQUEST_EOF :: int where "SSH_SCP_REQUEST_EOF = 3"
definition CONNECTION_OK :: int where "CONNECTION_OK = 0"
definition SCP_READ_SIZE :: nat where "SCP_READ_SIZE = 2048"

text \<open>The library calls a function makes, in the order it makes them.\<close>

datatype ssh_call =
    KeyNew | ImportPubkey | Connect | TryPublickey | ImportPrivkey | UserauthPublickey | KeyFree
  | ChannelNew | OpenSession | RequestExec | SendEof | ChannelClose | ChannelFree

text \<open>
  A timed read or a chunked read either delivers bytes and returns their number, or
  returns a negative code and delivers nothing.
\<close>

datatype read_outcome = Delivered string | Failed int

text \<open>The \<open>k\<close>-th answer of a scripted sequence, \<open>d\<close> once the script is used up.\<close>

definition answer :: "'a \<Rightarrow> 'a list \<Rightarrow> nat \<Rightarrow> 'a" where
  "answer d xs k = (if k < length xs then xs ! k else d)"

section \<open>Session manager\<close>

text \<open>\<open>alive\<close> is what \<open>ssh_is_connected\<close> reports for the session.\<close>

record ssh_session =
  alive :: int

record UBNTDevice =
  host :: string
  port :: int
  username :: string
  session :: ssh_session

definition ssh_is_connected :: "ssh_session \<Rightarrow> int" where
  "ssh_is_connected s = alive s"

text \<open>C's logical negation on \<open>int\<close>.\<close>

definition c_not :: "int \<Rightarrow> int" where
  "c_not x = (if x = 0 then 1 else 0)"

definition ubnt_is_connected :: "UBNTDevice \<Rightarrow> int" where
  "ubnt_is_connected device = c_not (ssh_is_connected (session device))"

subsection \<open>Public-key authentication\<close>

record key_answers =
  import_pubkey_rc :: int
  connect_rc :: int
  try_publickey_rc :: int
  import_privkey_rc :: int
  userauth_publickey_rc :: int

text \<open>
  \<open>ubnt_connect_key\<close> of \<open>ubnt.c\<close>: every assignment to \<open>rc\<close> before the test of
  \<open>SSH_AUTH_SUCCESS\<close> is overwritten by the next one. The result is the return code
  and the calls made.
\<close>

definition ubnt_connect_key :: "key_answers \<Rightarrow> int \<times> ssh_call list" where
  "ubnt_connect_key t =
     (let calls = [KeyNew, KeyNew, ImportPubkey, Connect, TryPublickey] in
      if try_publickey_rc t = SSH_AUTH_SUCCESS
      then (userauth_publickey_rc t,
            calls @ [ImportPrivkey, UserauthPublickey] @ [KeyFree, KeyFree])
      else (try_publickey_rc t, calls @ [KeyFree, KeyFree]))"

text \<open>
  \<open>ubnt_connect_key\<close> of the header that carries the function bodies: each step runs
  only if the one before returned \<open>SSH_OK\<close> (\<open>SSH_AUTH_SUCCESS\<close> for the try).
\<close>

definition ubnt_connect_key_h :: "key_answers \<Rightarrow> int \<times> ssh_call list" where
  "ubnt_connect_key_h t =
     (if import_pubkey_rc t = SSH_OK then
        (if connect_rc t = SSH_OK then
           (if try_publickey_rc t = SSH_AUTH_SUCCESS then
              (if import_privkey_rc t = SSH_OK then
                 (userauth_publickey_rc t,
                  [KeyNew, KeyNew, ImportPubkey, Connect, TryPublickey, ImportPrivkey,
                   UserauthPublickey, KeyFree, KeyFree])
               else
                 (import_privkey_rc t,
                  [KeyNew, KeyNew, ImportPubkey, Connect, TryPublickey, ImportPrivkey,
                   KeyFree, KeyFree]))
            else
              (try_publickey_rc t,
               [KeyNew, KeyNew, ImportPubkey, Connect, TryPublickey, KeyFree, KeyFree]))
         else (connect_rc t, [KeyNew, KeyNew, ImportPubkey, Connect, KeyFree, KeyFree]))
      else (import_pubkey_rc t, [KeyNew, KeyNew, ImportPubkey, KeyFree, KeyFree]))"

section \<open>Command executor\<close>

text \<open>
  One pass of the read loop asks the channel four things: is it open, is it at
  end-of-file, how many bytes are waiting, and (if some are) the read itself. A
  \<open>cycle\<close> holds the four answers; the channel's behaviour during a command is a list
  of cycles, and a used-up list is a channel that reports closed.
\<close>

record cycle =
  is_open :: bool
  is_eof :: bool
  poll_timeout :: int
  read_timeout :: read_outcome

record exec_answers =
  channel_new :: bool        \<comment> \<open>\<open>ssh_channel_new\<close> returned a channel\<close>
  open_session_rc :: int
  request_exec_rc :: int
  calloc_ok :: bool
  cycles :: "cycle list"

text \<open>
  \<^verbatim>\<open>buffer = calloc(buffer_size, '0')\<close> with \<open>buffer_size = 8192\<close>: 8192 members of
  \<open>'0'\<close> = 48 bytes each, all zero. The model keeps the bytes of the buffer up to the
  highest index written; everything after them is still NUL.
\<close>

definition buffer_capacity :: nat where
  "buffer_capacity = 8192 * 48"

text \<open>
  The read is asked for \<open>pbytes\<close> bytes, so it delivers at most that many. \<open>chunk\<close> is
  what the read of a cycle puts into the buffer.
\<close>

definition chunk :: "cycle \<Rightarrow> string" where
  "chunk c =
     (case read_timeout c of
        Delivered d \<Rightarrow> take (nat (poll_timeout c)) d
      | Failed e \<Rightarrow> [])"

text \<open>
  \<^verbatim>\<open>ssh_channel_read_timeout(channel, buffer, pbytes, 0, TIMEOUT)\<close>: the destination
  is \<open>buffer\<close> itself, so the bytes land at index 0.
\<close>

definition read_into :: "string \<Rightarrow> string \<Rightarrow> string" where
  "read_into d mem = d @ drop (length d) mem"

fun drain :: "cycle list \<Rightarrow> string option \<Rightarrow> int \<Rightarrow> error + (string option \<times> int)" where
  "drain [] buffer nbytes = Inr (buffer, nbytes)"
| "drain (c # cs) buffer nbytes =
     (if is_open c \<and> \<not> is_eof c then
        (if poll_timeout c > 0 then
           (case read_timeout c of
              Failed e \<Rightarrow> drain cs buffer (nbytes + e)
            | Delivered d \<Rightarrow>
                (case buffer of
                   None \<Rightarrow> Inl NullWrite
                 | Some mem \<Rightarrow>
                     if length (chunk c) > buffer_capacity then Inl WritePastEnd
                     else drain cs (Some (read_into (chunk c) mem))
                            (nbytes + int (length (chunk c)))))
         else Inr (buffer, nbytes))
      else Inr (buffer, nbytes))"

text \<open>
  A cycle \<open>runs\<close> when the loop reaches its read: the channel is open and not at
  end-of-file and the poll finds bytes waiting. The read \<open>delivers\<close> when it does not
  fail, and it \<open>fits\<close> when its bytes do not pass the end of the buffer. A successful
  poll/read cycle is one that runs, delivers and fits.
\<close>

definition runs :: "cycle \<Rightarrow> bool" where
  "runs c \<longleftrightarrow> is_open c \<and> \<not> is_eof c \<and> 0 < poll_timeout c"

definition delivers :: "cycle \<Rightarrow> bool" where
  "delivers c = (case read_timeout c of Delivered d \<Rightarrow> True | Failed e \<Rightarrow> False)"

definition fits :: "cycle \<Rightarrow> bool" where
  "fits c \<longleftrightarrow> length (chunk c) \<le> buffer_capacity"

definition successful :: "cycle \<Rightarrow> bool" where
  "successful c \<longleftrightarrow> runs c \<and> delivers c \<and> fits c"

text \<open>
  The buffer read as a C string: its bytes up to the first NUL. The terminator is a
  byte written by a read, or the first byte that no read has touched; a buffer filled
  to its last byte with no NUL in it has neither, and \<open>strlen\<close> runs past its end.
\<close>

definition cstr :: "string \<Rightarrow> error + string" where
  "cstr mem =
     (if NUL \<in> set mem \<or> length mem < buffer_capacity
      then Inr (takeWhile (\<lambda>c. c \<noteq> NUL) mem)
      else Inl ReadPastEnd)"

text \<open>\<open>rstrip(buffer)\<close>: nothing for NULL, else \<open>rstrip\<close> on the string in the buffer.\<close>

definition rstrip_buffer :: "string option \<Rightarrow> error + string option" where
  "rstrip_buffer buffer =
     (case buffer of
        None \<Rightarrow> rstrip None
      | Some mem \<Rightarrow>
          (case cstr mem of
             Inl e \<Rightarrow> Inl e
           | Inr str \<Rightarrow> rstrip (Some str)))"

text \<open>
  \<open>ubnt_exec_command\<close> of \<open>ubnt.c\<close>. No return code is tested. With a NULL channel
  the library's \<open>ssh_channel_is_open\<close> answers 0, so the loop does not run. The result
  is the returned string (\<open>None\<close> for NULL) and the calls that create, set up and
  release the channel.
\<close>

definition ubnt_exec_command :: "exec_answers \<Rightarrow> error + (string option \<times> ssh_call list)" where
  "ubnt_exec_command t =
     (let buffer = (if calloc_ok t then Some [] else None) in
      case drain (if channel_new t then cycles t else []) buffer 0 of
        Inl e \<Rightarrow> Inl e
      | Inr (buffer, nbytes) \<Rightarrow>
          (case rstrip_buffer buffer of
             Inl e \<Rightarrow> Inl e
           | Inr out \<Rightarrow>
               Inr (out, [ChannelNew, OpenSession, RequestExec,
                          SendEof, ChannelClose, ChannelFree])))"

text \<open>\<open>ubnt_exec_command\<close> of the header that carries the function bodies.\<close>

definition ubnt_exec_command_h :: "exec_answers \<Rightarrow> error + (string option \<times> ssh_call list)" where
  "ubnt_exec_command_h t =
     (if channel_new t then
        (if open_session_rc t = SSH_OK then
           (if request_exec_rc t = SSH_OK then
              (let buffer = (if calloc_ok t then Some [] else None) in
               case drain (cycles t) buffer 0 of
                 Inl e \<Rightarrow> Inl e
               | Inr (buffer, nbytes) \<Rightarrow>
                   (case rstrip_buffer buffer of
                      Inl e \<Rightarrow> Inl e
                    | Inr out \<Rightarrow>
                        Inr (out, [ChannelNew, OpenSession, RequestExec,
                                   SendEof, ChannelClose, ChannelFree])))
            else Inr (None, [ChannelNew, OpenSession, RequestExec,
                             SendEof, ChannelClose, ChannelFree]))
         else Inr (None, [ChannelNew, OpenSession, SendEof, ChannelClose, ChannelFree]))
      else Inr (None, [ChannelNew]))"

section \<open>Bulk file puller\<close>

record scp_answers =
  scp_init_rc :: int
  pull_requests :: "int list"         \<comment> \<open>answers of the successive \<open>ssh_scp_pull_request\<close> calls\<close>
  request_size :: int                 \<comment> \<open>\<open>ssh_scp_request_get_size\<close>, as the \<open>int\<close> it is stored in\<close>
  scp_reads :: "read_outcome list"    \<comment> \<open>outcomes of the successive \<open>ssh_scp_read\<close> calls\<close>

text \<open>
  The \<open>k\<close>-th call of \<open>ssh_scp_pull_request\<close> and of \<open>ssh_scp_read\<close>, counted
  from 0. Once the script is used up the library answers \<open>SSH_ERROR\<close>.
\<close>

definition ssh_scp_pull_request :: "scp_answers \<Rightarrow> nat \<Rightarrow> int" where
  "ssh_scp_pull_request t k = answer SSH_ERROR (pull_requests t) k"

definition ssh_scp_read :: "scp_answers \<Rightarrow> nat \<Rightarrow> read_outcome" where
  "ssh_scp_read t k = answer (Failed SSH_ERROR) (scp_reads t) k"

text \<open>
  \<open>tmp_buffer\<close> is an uninitialised array of \<open>num_reads * SCP_READ_SIZE\<close> bytes: a
  store from byte offsets to the bytes written so far. Row \<open>i\<close> starts at offset
  \<open>i * SCP_READ_SIZE\<close>.
\<close>

definition store_at :: "(nat \<rightharpoonup> char) \<Rightarrow> nat \<Rightarrow> string \<Rightarrow> (nat \<rightharpoonup> char)" where
  "store_at m off d =
     (\<lambda>k. if off \<le> k \<and> k < off + length d then Some (d ! (k - off)) else m k)"

text \<open>
  \<^verbatim>\<open>rc += ssh_scp_read(scp, tmp_buffer[i], file_size);\<close>
  The read is asked for \<open>file_size\<close> bytes, whatever the row holds.
\<close>

definition scp_read_step ::
  "scp_answers \<Rightarrow> nat \<Rightarrow> nat \<Rightarrow> nat \<Rightarrow> int \<Rightarrow> (nat \<rightharpoonup> char) \<Rightarrow> error + (int \<times> (nat \<rightharpoonup> char))" where
  "scp_read_step t file_size num_reads i rc tmp =
     (case ssh_scp_read t i of
        Failed e \<Rightarrow> Inr (rc + e, tmp)
      | Delivered d \<Rightarrow>
          (let d' = take file_size d in
           if i * SCP_READ_SIZE + length d' > num_reads * SCP_READ_SIZE then Inl WritePastEnd
           else Inr (rc + int (length d'), store_at tmp (i * SCP_READ_SIZE) d')))"

text \<open>
  \<^verbatim>\<open>do { ...; i++; } while (ssh_scp_pull_request(scp) != SSH_SCP_REQUEST_EOF && i < num_reads);\<close>
  Pull request 0 is the one before the loop; the one after the \<open>k\<close>-th read is number
  \<open>k\<close>. The result is \<open>rc\<close>, the final \<open>i\<close> (the number of reads) and the array.
\<close>

function scp_loop ::
  "scp_answers \<Rightarrow> nat \<Rightarrow> nat \<Rightarrow> nat \<Rightarrow> int \<Rightarrow> (nat \<rightharpoonup> char) \<Rightarrow> error + (int \<times> nat \<times> (nat \<rightharpoonup> char))" where
  "scp_loop t file_size num_reads i rc tmp =
     (case scp_read_step t file_size num_reads i rc tmp of
        Inl e \<Rightarrow> Inl e
      | Inr (rc', tmp') \<Rightarrow>
          if ssh_scp_pull_request t (Suc i) \<noteq> SSH_SCP_REQUEST_EOF \<and> Suc i < num_reads
          then scp_loop t file_size num_reads (Suc i) rc' tmp'
          else Inr (rc', Suc i, tmp'))"
  by pat_completeness auto
termination
  by (relation "measure (\<lambda>(t, file_size, num_reads, i, rc, tmp). num_reads - i)") auto

declare scp_loop.simps [simp del]

text \<open>
  \<open>copied\<close> is what \<open>memcpy(buffer, *tmp_buffer, file_size)\<close> puts into the caller's
  buffer: \<open>file_size\<close> bytes, \<open>None\<close> where the array was never written. It is \<open>None\<close>
  as a whole when the copy is not reached. The caller's buffer is taken to be large
  enough. \<open>ssh_scp_close\<close> and \<open>ssh_scp_free\<close> run on every path.
\<close>

record copy_result =
  ret :: int
  reads :: nat
  copied :: "char option list option"

definition ubnt_copy_config_to_buffer :: "scp_answers \<Rightarrow> error + copy_result" where
  "ubnt_copy_config_to_buffer t =
     (let rc = scp_init_rc t in
      if rc = CONNECTION_OK then
        (let rc = ssh_scp_pull_request t 0 in
         if rc = SSH_SCP_REQUEST_NEWFILE then
           (let file_size = request_size t in
            if file_size < 0 then Inl NegativeSize
            else
              (let num_reads = nat (file_size div int SCP_READ_SIZE) + 1 in
               case scp_loop t (nat file_size) num_reads 0 0 Map.empty of
                 Inl e \<Rightarrow> Inl e
               | Inr (rc, i, tmp) \<Rightarrow>
                   Inr \<lparr>ret = rc, reads = i,
                        copied = Some (map tmp [0..<nat file_size])\<rparr>))
         else Inr \<lparr>ret = rc, reads = 0, copied = None\<rparr>)
      else Inr \<lparr>ret = rc, reads = 0, copied = None\<rparr>)"

text \<open>
  What the \<open>k\<close>-th \<open>ssh_scp_read\<close> of a transfer returns: the number of bytes it
  delivered (at most the \<open>file_size\<close> it was asked for) or its error code.
\<close>

definition scp_read_rc :: "scp_answers \<Rightarrow> nat \<Rightarrow> int" where
  "scp_read_rc t k =
     (case ssh_scp_read t k of
        Failed e \<Rightarrow> e
      | Delivered d \<Rightarrow> int (length (take (nat (request_size t)) d)))"

text \<open>
  The source notes that the device's scp serves reads of 2048 bytes only: a read that
  respects this delivers no more than one row.
\<close>

definition fits_row :: "read_outcome \<Rightarrow> bool" where
  "fits_row r = (case r of Delivered d \<Rightarrow> length d \<le> SCP_READ_SIZE | Failed e \<Rightarrow> True)"

section \<open>String utilities: properties\<close>

lemma rstrip_loop_append:
  "rstrip_loop (xs @ zs) (length xs) =
     (if \<forall>c\<in>set xs. isspace c then Inl ReadBeforeStart
      else Inr (length (rev (dropWhile isspace (rev xs)))))"
  by (induction xs arbitrary: zs rule: rev_induct) (auto simp: nth_append)

lemma take_rev_dropWhile:
  "take (length (dropWhile P (rev xs))) xs = rev (dropWhile P (rev xs))"
proof (induction xs rule: rev_induct)
  case Nil
  then show ?case by simp
next
  case (snoc x xs)
  have "length (dropWhile P (rev xs)) \<le> length xs"
    using length_dropWhile_le [of P "rev xs"] by simp
  with snoc show ?case by auto
qed

text \<open>
  On a string with at least one character that is not whitespace, \<open>rstrip\<close> removes
  exactly the trailing whitespace, and a second application changes nothing.
\<close>

lemma rstrip_nonblank:
  assumes "\<exists>c\<in>set s. \<not> isspace c"
  shows "rstrip (Some s) = Inr (Some (rev (dropWhile isspace (rev s))))"
proof -
  have "rstrip_loop s (length s) = Inr (length (rev (dropWhile isspace (rev s))))"
    using assms rstrip_loop_append [of s "[]"] by auto
  moreover have "s \<noteq> []" using assms by auto
  ultimately show ?thesis
    by (simp add: rstrip_def take_rev_dropWhile)
qed

lemma rstrip_nonblank_idem:
  assumes "\<exists>c\<in>set s. \<not> isspace c" and "rstrip (Some s) = Inr r"
  shows "rstrip r = Inr r"
proof -
  let ?t = "rev (dropWhile isspace (rev s))"
  have r: "r = Some ?t" using assms rstrip_nonblank by simp
  have ne: "dropWhile isspace (rev s) \<noteq> []"
    using assms(1) by (simp add: dropWhile_eq_Nil_conv)
  then have "\<not> isspace (hd (dropWhile isspace (rev s)))"
    by (simp add: hd_dropWhile)
  then have "\<exists>c\<in>set ?t. \<not> isspace c"
    using ne by (metis hd_in_set set_rev)
  then have "rstrip (Some ?t) = Inr (Some (rev (dropWhile isspace (rev ?t))))"
    by (rule rstrip_nonblank)
  moreover have "dropWhile isspace (rev ?t) = dropWhile isspace (rev s)"
    by simp
  ultimately show ?thesis using r by simp
qed

lemma rstrip_empty: "rstrip (Some []) = Inr (Some [])"
  by (simp add: rstrip_def)

lemma rstrip_null: "rstrip None = Inr None"
  by (simp add: rstrip_def)

text \<open>
  On a string of whitespace only, the loop runs \<open>i\<close> down to 0 and then reads
  \<open>str[-1]\<close>.
\<close>

lemma rstrip_blank:
  assumes "s \<noteq> []" and "\<forall>c\<in>set s. isspace c"
  shows "rstrip (Some s) = Inl ReadBeforeStart"
  using assms rstrip_loop_append [of s "[]"] by (simp add: rstrip_def)

text \<open>
  C7. The claim: for every string, \<open>rstrip\<close> removes only trailing whitespace and is
  idempotent. The function's comment says the same ("Remove all whitespace from the
  right of a string"). On the string that is one space the code does not produce a
  string: after stepping over the space it tests \<open>isspace(str[-1])\<close>, a read before
  the start of the string.
\<close>

theorem rstrip_single_space_reads_before_start:
  "rstrip (Some '' '') = Inl ReadBeforeStart"
  by (simp add: rstrip_def isspace_def)

lemma strip_loop_filter:
  "i + n \<le> length obj \<Longrightarrow>
     strip_loop obj n i out =
       Inr (out @ filter (\<lambda>c. c \<noteq> LF \<and> c \<noteq> TAB \<and> c \<noteq> CR) (take n (drop i obj)))"
proof (induction n arbitrary: i out)
  case 0
  then show ?case by simp
next
  case (Suc n)
  then have i: "i < length obj" by simp
  then have d: "drop i obj = obj ! i # drop (Suc i) obj"
    by (simp add: Cons_nth_drop_Suc)
  from Suc.prems have "Suc i + n \<le> length obj" by simp
  from Suc.IH [OF this] i show ?case
    by (simp add: d)
qed

lemma takeWhile_upto_nul:
  "NUL \<notin> set s \<Longrightarrow> takeWhile (\<lambda>c. c \<noteq> NUL) (s @ NUL # rest) = s"
  by (induction s) auto

text \<open>
  Where the object extends at least 99 bytes past the terminator and one of the bytes
  read is removed, \<open>strip\<close> stays inside both objects and returns the string without
  its \<open>\n\<close>, \<open>\t\<close> and \<open>\r\<close>.
\<close>

lemma strip_within_object:
  assumes nul: "NUL \<notin> set s" and room: "99 \<le> length rest"
    and hit: "\<exists>c\<in>set (s @ take 99 rest). c = LF \<or> c = TAB \<or> c = CR"
  shows "strip (Some (s @ NUL # rest)) =
           Inr (Some (filter (\<lambda>c. c \<noteq> LF \<and> c \<noteq> TAB \<and> c \<noteq> CR) s))"
proof -
  let ?keep = "\<lambda>c. c \<noteq> LF \<and> c \<noteq> TAB \<and> c \<noteq> CR"
  let ?obj = "s @ NUL # rest"
  let ?win = "s @ NUL # take 99 rest"
  have tw: "takeWhile (\<lambda>c. c \<noteq> NUL) ?obj = s"
    using nul by (rule takeWhile_upto_nul)
  then have len: "strlen ?obj = Inr (length s)"
    by (simp add: strlen_def)
  have win: "take (length s + 100) ?obj = ?win"
    by simp
  have "0 + (length s + 100) \<le> length ?obj" using room by simp
  from strip_loop_filter [OF this, of "[]"]
  have loop: "strip_loop ?obj (length s + 100) 0 [] = Inr (filter ?keep ?win)"
    by (simp only: win drop_0 append_Nil)
  have lw: "length ?win = length s + 100" using room by simp
  from hit obtain c where "c \<in> set ?win" "\<not> ?keep c" by auto
  then have "length (filter ?keep ?win) < length ?win"
    by (rule length_filter_less)
  then have short: "length (filter ?keep ?win) < length s + 100"
    by (simp only: lw)
  have "NUL \<notin> set (filter ?keep s)" using nul by simp
  then have cut: "takeWhile (\<lambda>c. c \<noteq> NUL) (filter ?keep ?win) = filter ?keep s"
    using takeWhile_upto_nul [of "filter ?keep s" "filter ?keep (take 99 rest)"] by simp
  show ?thesis
    using short by (simp add: strip_def len loop cut Let_def del: filter.simps filter_append)
qed

lemma strip_null: "strip None = Inr None"
  by (simp add: strip_def)

text \<open>
  C10. The claim: for every non-null string, \<open>strip\<close> returns the string without its
  \<open>\n\<close>, \<open>\t\<close> and \<open>\r\<close>. The loop bound is \<open>strlen(str) + 100\<close>, not
  \<open>strlen(str)\<close>. For \<open>"abc"\<close> held in a four-byte object the loop reads \<open>str[4]\<close>,
  past the object. For \<open>"abc"\<close> at the start of a zeroed buffer (what
  \<open>ubnt_exec_command\<close> returns) all 103 bytes read are kept, \<open>j\<close> ends at 103, and the
  terminator is written at \<open>stripped_str[103]\<close>, one past \<open>malloc(103)\<close>.
\<close>

theorem strip_abc_leaves_its_objects:
  "strip (Some (''abc'' @ [NUL])) = Inl ReadPastEnd \<and>
   strip (Some (''abc'' @ replicate 100 NUL)) = Inl WritePastEnd"
  by code_simp

section \<open>Output transformer: properties\<close>

lemma strstr_Some:
  "strstr s n = Some k \<Longrightarrow>
     take (length n) (drop k s) = n \<and> (\<forall>k'<k. take (length n) (drop k' s) \<noteq> n)"
proof (induction s arbitrary: k)
  case Nil
  then show ?case by (auto split: if_splits)
next
  case (Cons c cs)
  show ?case
  proof (cases "take (length n) (c # cs) = n")
    case True
    with Cons.prems show ?thesis by simp
  next
    case False
    with Cons.prems obtain j where j: "strstr cs n = Some j" "k = Suc j" by auto
    from Cons.IH [OF j(1)] have ih: "take (length n) (drop j cs) = n"
      "\<forall>k'<j. take (length n) (drop k' cs) \<noteq> n" by auto
    have "\<forall>k'<Suc j. take (length n) (drop k' (c # cs)) \<noteq> n"
    proof (intro allI impI)
      fix k' assume "k' < Suc j"
      then show "take (length n) (drop k' (c # cs)) \<noteq> n"
        using False ih(2) by (cases k') auto
    qed
    with ih(1) j(2) show ?thesis by simp
  qed
qed

lemma strstr_None:
  "strstr s n = None \<Longrightarrow> take (length n) (drop k s) \<noteq> n"
proof (induction s arbitrary: k)
  case Nil
  then show ?case by (auto split: if_splits)
next
  case (Cons c cs)
  then show ?case by (cases k) (auto split: if_splits)
qed

text \<open>
  C2. The claim: for \<open>"key1=val1\nkey2=val2\r\n"\<close> the result is
  \<open>[{"key1":"val1","key2":"val2"}]\<close>. The code closes a value only at \<open>\r\<close>; a
  \<open>\n\<close> emits \<open>,"\<close> alone. So the bare \<open>\n\<close> after \<open>val1\<close> leaves that value
  without its closing quote, and the final \<open>\r\n\<close> closes \<open>val2\<close> and opens one
  more, empty, field. The claimed string is what the code returns when the lines are
  separated by \<open>\r\n\<close> and the trailing line ending has been trimmed, as
  \<open>ubnt_mca_status\<close> passes its input.
\<close>

theorem mca_to_json_line_endings:
  \<open>mca_to_json (''key1=val1'' @ [LF] @ ''key2=val2'' @ [CR, LF])
      = Inr ''[{"key1":"val1,"key2":"val2",""}]'' \<and>
    mca_to_json (''key1=val1'' @ [CR, LF] @ ''key2=val2'')
      = Inr ''[{"key1":"val1","key2":"val2"}]''\<close>
  by code_simp

text \<open>Against the claim as stated: the result is not the claimed string.\<close>

theorem mca_to_json_line_endings_counterexample:
  \<open>mca_to_json (''key1=val1'' @ [LF] @ ''key2=val2'' @ [CR, LF])
      \<noteq> Inr ''[{"key1":"val1","key2":"val2"}]''\<close>
  by code_simp

lemma mca_to_json_pass: "mca_to_json str = mca_pass (mca_prepass str)"
  by (simp add: mca_to_json_def mca_pass_def)

lemma mca_prepass_first:
  assumes \<open>str = pre @ '', '' @ post\<close>
    and \<open>\<forall>k<length pre. take 2 (drop k str) \<noteq> '', ''\<close>
  shows \<open>mca_prepass str = pre @ ''--'' @ post\<close>
proof -
  from assms(1) have occ: \<open>take 2 (drop (length pre) str) = '', ''\<close> by simp
  show ?thesis
  proof (cases \<open>strstr str '', ''\<close>)
    case None
    from strstr_None [OF None, of "length pre"] occ show ?thesis
      by (simp add: numeral_2_eq_2)
  next
    case (Some k)
    from strstr_Some [OF Some] have k: \<open>take 2 (drop k str) = '', ''\<close>
      \<open>\<forall>k'<k. take 2 (drop k' str) \<noteq> '', ''\<close> by (simp_all add: numeral_2_eq_2)
    have "k = length pre"
    proof (rule ccontr)
      assume "k \<noteq> length pre"
      then consider "k < length pre" | "length pre < k" by linarith
      then show False using assms(2) k occ by cases auto
    qed
    with Some assms(1) show ?thesis by (simp add: mca_prepass_def)
  qed
qed

lemma mca_prepass_none:
  assumes \<open>\<forall>k. take 2 (drop k str) \<noteq> '', ''\<close>
  shows "mca_prepass str = str"
proof (cases \<open>strstr str '', ''\<close>)
  case None
  then show ?thesis by (simp add: mca_prepass_def)
next
  case (Some k)
  from strstr_Some [OF Some] assms show ?thesis by (simp add: numeral_2_eq_2)
qed

text \<open>
  C8. The claim: before its character pass \<open>mca_to_json\<close> overwrites exactly the
  first \<open>", "\<close> of its input with \<open>"--"\<close> and leaves later ones unaltered; for
  \<open>"a=1, 2\nb=3\n"\<close> the value emitted for key \<open>a\<close> is \<open>1--2\<close>. The first half
  holds for every input: if the input is \<open>pre @ ", " @ post\<close> and \<open>", "\<close> does not
  start at any index before \<open>length pre\<close>, the result is that of the character pass
  over \<open>pre @ "--" @ post\<close>, with \<open>post\<close> and any \<open>", "\<close> in it as they were; if
  \<open>", "\<close> does not occur, it is the character pass over the input itself. For the
  example the characters written after the opening quote of \<open>a\<close>'s value are
  \<open>1--2\<close>, but no closing quote follows them: the line ends in a bare \<open>\n\<close>, which
  emits \<open>,"\<close> alone, so the result is \<open>[{"a":"1--2,"b":"3,""}]\<close>. With the lines
  separated by \<open>\r\n\<close> and the trailing line ending trimmed the value of \<open>a\<close> is
  the closed string \<open>"1--2"\<close>.
\<close>

theorem mca_to_json_replaces_first_occurrence:
  \<open>(str = pre @ '', '' @ post \<and> (\<forall>k<length pre. take 2 (drop k str) \<noteq> '', '')
       \<longrightarrow> mca_to_json str = mca_pass (pre @ ''--'' @ post)) \<and>
    ((\<forall>k. take 2 (drop k str) \<noteq> '', '') \<longrightarrow> mca_to_json str = mca_pass str) \<and>
    mca_to_json (''a=1, 2'' @ [LF] @ ''b=3'' @ [LF]) = Inr ''[{"a":"1--2,"b":"3,""}]'' \<and>
    mca_to_json (''a=1, 2'' @ [CR, LF] @ ''b=3'') = Inr ''[{"a":"1--2","b":"3"}]''\<close>
proof (intro conjI impI)
  assume \<open>str = pre @ '', '' @ post \<and> (\<forall>k<length pre. take 2 (drop k str) \<noteq> '', '')\<close>
  then have \<open>mca_prepass str = pre @ ''--'' @ post\<close>
    using mca_prepass_first [of str pre post] by blast
  then show \<open>mca_to_json str = mca_pass (pre @ ''--'' @ post)\<close>
    by (simp only: mca_to_json_pass)
next
  assume \<open>\<forall>k. take 2 (drop k str) \<noteq> '', ''\<close>
  then have "mca_prepass str = str" by (rule mca_prepass_none)
  then show "mca_to_json str = mca_pass str"
    by (simp only: mca_to_json_pass)
next
  show \<open>mca_to_json (''a=1, 2'' @ [LF] @ ''b=3'' @ [LF]) = Inr ''[{"a":"1--2,"b":"3,""}]''\<close>
    by code_simp
next
  show \<open>mca_to_json (''a=1, 2'' @ [CR, LF] @ ''b=3'') = Inr ''[{"a":"1--2","b":"3"}]''\<close>
    by code_simp
qed

text \<open>
  In \<open>"a=1, 2, 3"\<close> the first \<open>", "\<close> starts at index 3 and becomes \<open>"--"\<close>; the
  second one stays, and the pass splits the field at its comma and keeps its space.
\<close>

theorem mca_to_json_replaces_first_occurrence_witness:
  \<open>mca_to_json ''a=1, 2, 3'' = Inr ''[{"a":"1--2"," 3"}]''\<close>
proof -
  have \<open>''a=1, 2, 3'' = ''a=1'' @ '', '' @ ''2, 3'' \<and>
    (\<forall>k<length ''a=1''. take 2 (drop k ''a=1, 2, 3'') \<noteq> '', '')\<close>
    by (simp add: less_Suc_eq numeral_3_eq_3)
  with mca_to_json_replaces_first_occurrence [of \<open>''a=1, 2, 3''\<close> \<open>''a=1''\<close> \<open>''2, 3''\<close>]
  have \<open>mca_to_json ''a=1, 2, 3'' = mca_pass (''a=1'' @ ''--'' @ ''2, 3'')\<close>
    by blast
  moreover have \<open>mca_pass (''a=1'' @ ''--'' @ ''2, 3'') = Inr ''[{"a":"1--2"," 3"}]''\<close>
    by code_simp
  ultimately show ?thesis by (simp only:)
qed

text \<open>
  Against the claim as stated: in the result for \<open>"a=1, 2\nb=3\n"\<close> the text
  \<open>"a":"1--2"\<close> (key \<open>a\<close> with the value \<open>1--2\<close>) does not occur; the string opened
  after \<open>"a":\<close> runs on to \<open>1--2,\<close> before the next quote.
\<close>

theorem mca_to_json_replaces_first_occurrence_counterexample:
  \<open>mca_to_json (''a=1, 2'' @ [LF] @ ''b=3'' @ [LF]) = Inr ''[{"a":"1--2,"b":"3,""}]'' \<and>
    strstr ''[{"a":"1--2,"b":"3,""}]'' ''"a":"1--2"'' = None \<and>
    strstr ''[{"a":"1--2,"b":"3,""}]'' ''"a":"1--2,"'' = Some 2\<close>
  by code_simp

text \<open>
  C9. The claim: a \<open>\r\<close> at index 0 is treated as not preceded by \<open>\n\<close>, and no
  character before the start of the input is read. The code tests
  \<open>str[i - 1] == '\n'\<close> with \<open>i = 0\<close>: whatever follows the leading \<open>\r\<close>, the
  first thing it does there is read \<open>str[-1]\<close>.
\<close>

theorem mca_to_json_leading_cr_reads_before_start:
  "mca_to_json (CR # rest) = Inl ReadBeforeStart"
  by (simp add: mca_to_json_def mca_prepass_def mca_loop.simps split: option.splits)

section \<open>Session manager: properties\<close>

text \<open>
  C6. The claim: \<open>ubnt_is_connected\<close> returns nonzero if and only if the transport
  reports an active connection. The code returns the negation of the report, as its
  comment says ("0 for connected and 1 for disconnected"): the result is 0 exactly when
  the transport reports a connection, and 1 exactly when it reports none.
\<close>

theorem ubnt_is_connected_negates_report:
  "(ubnt_is_connected device = 0) = (ssh_is_connected (session device) \<noteq> 0) \<and>
   (ubnt_is_connected device = 1) = (ssh_is_connected (session device) = 0)"
  by (simp add: ubnt_is_connected_def c_not_def)

text \<open>
  Against the claim as stated: with the transport reporting a connection (1) the
  function returns 0.
\<close>

theorem ubnt_is_connected_negates_report_counterexample:
  "\<not> ((ubnt_is_connected
          \<lparr>host = ''192.168.1.20'', port = 22, username = ''ubnt'', session = \<lparr>alive = 1\<rparr>\<rparr> \<noteq> 0)
       = (ssh_is_connected \<lparr>alive = 1\<rparr> \<noteq> 0))"
  by (simp add: ubnt_is_connected_def c_not_def ssh_is_connected_def)

text \<open>
  The header's \<open>ubnt_connect_key\<close> stops at the first step that fails, frees both
  keys and returns that step's code.
\<close>

lemma ubnt_connect_key_h_import_fails:
  "import_pubkey_rc t \<noteq> SSH_OK \<Longrightarrow>
     ubnt_connect_key_h t =
       (import_pubkey_rc t, [KeyNew, KeyNew, ImportPubkey, KeyFree, KeyFree])"
  by (simp add: ubnt_connect_key_h_def)

lemma ubnt_connect_key_h_connect_fails:
  "import_pubkey_rc t = SSH_OK \<Longrightarrow> connect_rc t \<noteq> SSH_OK \<Longrightarrow>
     ubnt_connect_key_h t =
       (connect_rc t, [KeyNew, KeyNew, ImportPubkey, Connect, KeyFree, KeyFree])"
  by (simp add: ubnt_connect_key_h_def)

lemma ubnt_connect_key_h_try_fails:
  "import_pubkey_rc t = SSH_OK \<Longrightarrow> connect_rc t = SSH_OK \<Longrightarrow>
   try_publickey_rc t \<noteq> SSH_AUTH_SUCCESS \<Longrightarrow>
     ubnt_connect_key_h t =
       (try_publickey_rc t,
        [KeyNew, KeyNew, ImportPubkey, Connect, TryPublickey, KeyFree, KeyFree])"
  by (simp add: ubnt_connect_key_h_def)

lemma ubnt_connect_key_h_privkey_fails:
  "import_pubkey_rc t = SSH_OK \<Longrightarrow> connect_rc t = SSH_OK \<Longrightarrow>
   try_publickey_rc t = SSH_AUTH_SUCCESS \<Longrightarrow> import_privkey_rc t \<noteq> SSH_OK \<Longrightarrow>
     ubnt_connect_key_h t =
       (import_privkey_rc t,
        [KeyNew, KeyNew, ImportPubkey, Connect, TryPublickey, ImportPrivkey, KeyFree, KeyFree])"
  by (simp add: ubnt_connect_key_h_def)

text \<open>
  The \<open>ubnt_connect_key\<close> of \<open>ubnt.c\<close> connects and tries the public key whatever
  the import returned, and never returns the import's code.
\<close>

lemma ubnt_connect_key_always_connects:
  "take 5 (snd (ubnt_connect_key t)) = [KeyNew, KeyNew, ImportPubkey, Connect, TryPublickey]"
  by (simp add: ubnt_connect_key_def Let_def)

text \<open>
  C3. The claim: in \<open>ubnt_connect_key\<close> a failed public-key import stops the
  function: no connect, no authentication, the keys are freed and the import's code is
  returned. The header's version does this. The version of \<open>ubnt.c\<close> tests no return
  code before the key try: with the import failing (\<open>SSH_ERROR\<close>), the connect
  succeeding and the server refusing the key (\<open>SSH_AUTH_DENIED\<close>, 1), it connects,
  tries the key and returns 1.
\<close>

theorem ubnt_connect_key_runs_on_after_failed_import:
  "ubnt_connect_key
     \<lparr>import_pubkey_rc = SSH_ERROR, connect_rc = SSH_OK, try_publickey_rc = 1,
      import_privkey_rc = SSH_OK, userauth_publickey_rc = SSH_AUTH_SUCCESS\<rparr>
   = (1, [KeyNew, KeyNew, ImportPubkey, Connect, TryPublickey, KeyFree, KeyFree])"
  by (simp add: ubnt_connect_key_def SSH_AUTH_SUCCESS_def)

section \<open>Command executor: properties\<close>

lemma length_read_into: "length (read_into d mem) = max (length d) (length mem)"
  by (simp add: read_into_def)

lemma read_into_Nil: "read_into [] mem = mem"
  by (simp add: read_into_def)

lemma chunk_failed: "\<not> delivers c \<Longrightarrow> chunk c = []"
  by (simp add: delivers_def chunk_def split: read_outcome.splits)

text \<open>
  Cycles that all run leave in the buffer their chunks laid over one another at index
  0, in the order read; a failed read among them leaves the buffer as it is.
\<close>

lemma drain_runs_append:
  "list_all runs cs \<Longrightarrow> list_all fits cs \<Longrightarrow>
     \<exists>n'. drain (cs @ rest) (Some mem) n =
            drain rest (Some (foldl (\<lambda>m c. read_into (chunk c) m) mem cs)) n'"
proof (induction cs arbitrary: mem n)
  case Nil
  show ?case by (intro exI [of _ n]) simp
next
  case (Cons c cs)
  then have c: "runs c" "fits c" and cs: "list_all runs cs" "list_all fits cs"
    by simp_all
  show ?case
  proof (cases "read_timeout c")
    case (Failed e)
    then have "chunk c = []" by (simp add: chunk_def)
    moreover have "drain ((c # cs) @ rest) (Some mem) n = drain (cs @ rest) (Some mem) (n + e)"
      using c(1) Failed by (simp add: runs_def)
    ultimately show ?thesis
      using Cons.IH [OF cs, of mem "n + e"] by (simp add: read_into_Nil)
  next
    case (Delivered d)
    then have "drain ((c # cs) @ rest) (Some mem) n =
        drain (cs @ rest) (Some (read_into (chunk c) mem)) (n + int (length (chunk c)))"
      using c by (simp add: runs_def fits_def)
    then show ?thesis
      using Cons.IH [OF cs, of "read_into (chunk c) mem" "n + int (length (chunk c))"]
      by simp
  qed
qed

text \<open>
  Once no later read delivers, the loop comes to its end with the buffer unchanged:
  at a cycle that does not run, or at the end of the script.
\<close>

lemma drain_no_delivery:
  "list_all (\<lambda>c. \<not> delivers c) (takeWhile runs rest) \<Longrightarrow>
     \<exists>n'. drain rest (Some mem) n = Inr (Some mem, n')"
proof (induction rest arbitrary: n)
  case Nil
  then show ?case by simp
next
  case (Cons c rest)
  show ?case
  proof (cases "runs c")
    case False
    then show ?thesis by (auto simp: runs_def)
  next
    case True
    with Cons.prems have nd: "\<not> delivers c"
      and later: "list_all (\<lambda>c. \<not> delivers c) (takeWhile runs rest)"
      by simp_all
    from nd obtain e where "read_timeout c = Failed e"
      by (auto simp: delivers_def split: read_outcome.splits)
    with True have "drain (c # rest) (Some mem) n = drain rest (Some mem) (n + e)"
      by (simp add: runs_def)
    with Cons.IH [OF later, of "n + e"] show ?thesis by simp
  qed
qed

lemma length_overlay:
  "length (foldl (\<lambda>m c. read_into (chunk c) m) mem cs) =
     Max (insert (length mem) ((\<lambda>c. length (chunk c)) ` set cs))"
proof (induction cs arbitrary: mem)
  case Nil
  then show ?case by simp
next
  case (Cons c cs)
  have "Max (insert (max (length (chunk c)) (length mem)) ((\<lambda>c. length (chunk c)) ` set cs))
      = Max (insert (length mem) (insert (length (chunk c)) ((\<lambda>c. length (chunk c)) ` set cs)))"
    by (cases "cs = []") (simp_all add: max.commute max.left_commute)
  with Cons.IH [of "read_into (chunk c) mem"] show ?case
    by (simp add: length_read_into)
qed

text \<open>
  Every script in which some read of the loop delivers splits at the last such cycle:
  the cycles before it all run, and among the cycles after it that still run no read
  delivers.
\<close>

lemma script_splits_at_last_delivery:
  assumes some: "\<exists>c\<in>set (takeWhile runs script). delivers c"
    and room: "list_all fits (takeWhile runs script)"
  shows "\<exists>cs c rest. script = cs @ [c] @ rest \<and> list_all runs cs \<and> list_all fits cs \<and>
           successful c \<and> list_all (\<lambda>c. \<not> delivers c) (takeWhile runs rest)"
proof -
  let ?ran = "takeWhile runs script" and ?tail = "dropWhile runs script"
  from split_list_last_prop [OF some]
  obtain cs c zs where ran: "?ran = cs @ c # zs" and c: "delivers c"
    and zs: "\<forall>z\<in>set zs. \<not> delivers z"
    by blast
  have all_run: "\<forall>x\<in>set ?ran. runs x"
    by (auto dest: set_takeWhileD)
  have all_fit: "\<forall>x\<in>set ?ran. fits x"
    using room by (simp add: list_all_iff)
  have tail: "takeWhile runs ?tail = []"
  proof (cases ?tail)
    case Nil
    then show ?thesis by (simp only: takeWhile.simps)
  next
    case (Cons a list)
    then have "\<not> runs a" using hd_dropWhile [of runs script] by simp
    with Cons show ?thesis by (simp only: takeWhile.simps if_False)
  qed
  have "takeWhile runs (zs @ ?tail) = zs"
    using all_run ran tail by (simp add: takeWhile_append2)
  moreover have "script = cs @ [c] @ (zs @ ?tail)"
    using takeWhile_dropWhile_id [of runs script] ran by simp
  moreover have "list_all runs cs" "list_all fits cs" "successful c"
    using all_run all_fit ran c by (simp_all add: list_all_iff successful_def)
  ultimately show ?thesis
    using zs by (metis list_all_iff)
qed

text \<open>
  C1. The claim: every read writes at offset 0, so after two or more successful
  cycles the returned buffer holds only the bytes of the last chunk. The first half
  holds. The second does not: a read overwrites only as many bytes as it delivers, so
  what an earlier, longer chunk wrote beyond the length of the last chunk stays in the
  buffer. Take any execution and let \<open>c\<close> be its last successful cycle, \<open>cs\<close> the
  cycles before it (they all run; their reads deliver or fail) and \<open>rest\<close> what the
  channel answers afterwards (no further read delivers). The buffer after \<open>cs\<close> is as
  long as the longest earlier chunk. At the end of the loop the buffer is the last
  chunk followed by the bytes that the earlier reads left beyond its length, and the
  function returns what \<open>rstrip\<close> makes of it, in both versions of
  \<open>ubnt_exec_command\<close>. Only when no earlier chunk is longer than the last is the
  buffer the last chunk alone.
\<close>

theorem exec_command_last_chunk_overlays:
  assumes early: "list_all runs cs" "list_all fits cs"
    and last: "successful c"
    and later: "list_all (\<lambda>c. \<not> delivers c) (takeWhile runs rest)"
    and t: "t = \<lparr>channel_new = True, open_session_rc = SSH_OK, request_exec_rc = SSH_OK,
                 calloc_ok = True, cycles = cs @ [c] @ rest\<rparr>"
  shows "\<exists>m0 n0 n.
           drain cs (Some []) 0 = Inr (Some m0, n0) \<and>
           length m0 = Max (insert 0 ((\<lambda>c. length (chunk c)) ` set cs)) \<and>
           drain (cs @ [c] @ rest) (Some []) 0 =
             Inr (Some (chunk c @ drop (length (chunk c)) m0), n) \<and>
           ubnt_exec_command t =
             (case rstrip_buffer (Some (chunk c @ drop (length (chunk c)) m0)) of
                Inl e \<Rightarrow> Inl e
              | Inr out \<Rightarrow>
                  Inr (out, [ChannelNew, OpenSession, RequestExec,
                             SendEof, ChannelClose, ChannelFree])) \<and>
           ubnt_exec_command_h t = ubnt_exec_command t \<and>
           ((\<forall>c'\<in>set cs. length (chunk c') \<le> length (chunk c)) \<longrightarrow>
              chunk c @ drop (length (chunk c)) m0 = chunk c)"
proof -
  let ?m0 = "foldl (\<lambda>m c. read_into (chunk c) m) [] cs"
  let ?mem = "chunk c @ drop (length (chunk c)) ?m0"
  from last have c: "list_all runs [c]" "list_all fits [c]"
    by (simp_all add: successful_def)
  from drain_runs_append [OF early, of "[]" "[]" 0]
  obtain n0 where d0: "drain cs (Some []) 0 = Inr (Some ?m0, n0)"
    by auto
  have len: "length ?m0 = Max (insert 0 ((\<lambda>c. length (chunk c)) ` set cs))"
    using length_overlay [of "[]" cs] by simp
  from drain_runs_append [OF early, of "[c] @ rest" "[]" 0]
  obtain n1 where s1: "drain (cs @ [c] @ rest) (Some []) 0 = drain ([c] @ rest) (Some ?m0) n1"
    by blast
  from drain_runs_append [OF c, of rest ?m0 n1]
  obtain n2 where s2: "drain ([c] @ rest) (Some ?m0) n1 = drain rest (Some ?mem) n2"
    by (auto simp: read_into_def)
  from drain_no_delivery [OF later, of ?mem n2]
  obtain n where s3: "drain rest (Some ?mem) n2 = Inr (Some ?mem, n)"
    by blast
  have d1: "drain (cs @ [c] @ rest) (Some []) 0 = Inr (Some ?mem, n)"
    by (simp only: s1 s2 s3)
  have cyc: "cycles t = cs @ [c] @ rest" "channel_new t" "calloc_ok t"
    "open_session_rc t = SSH_OK" "request_exec_rc t = SSH_OK"
    by (simp_all add: t)
  have e1: "ubnt_exec_command t =
      (case rstrip_buffer (Some ?mem) of
         Inl e \<Rightarrow> Inl e
       | Inr out \<Rightarrow>
           Inr (out, [ChannelNew, OpenSession, RequestExec, SendEof, ChannelClose, ChannelFree]))"
    using d1 by (simp add: ubnt_exec_command_def cyc split: sum.splits)
  have e2: "ubnt_exec_command_h t = ubnt_exec_command t"
    by (simp add: ubnt_exec_command_def ubnt_exec_command_h_def cyc)
  have e3: "(\<forall>c'\<in>set cs. length (chunk c') \<le> length (chunk c)) \<longrightarrow> ?mem = chunk c"
  proof
    assume "\<forall>c'\<in>set cs. length (chunk c') \<le> length (chunk c)"
    then have "length ?m0 \<le> length (chunk c)"
      unfolding len by (cases "cs = []") auto
    then show "?mem = chunk c" by simp
  qed
  from d0 len d1 e1 e2 e3 show ?thesis by blast
qed

text \<open>
  The chunk \<open>"hello"\<close>, a failed read, the chunk \<open>"ab"\<close>, then a poll that finds
  nothing: the buffer returned is \<open>"ab"\<close> followed by what \<open>"hello"\<close> left.
\<close>

theorem exec_command_last_chunk_overlays_witness:
  "ubnt_exec_command
     \<lparr>channel_new = True, open_session_rc = SSH_OK, request_exec_rc = SSH_OK,
      calloc_ok = True,
      cycles = [\<lparr>is_open = True, is_eof = False, poll_timeout = 5,
                  read_timeout = Delivered ''hello''\<rparr>,
                \<lparr>is_open = True, is_eof = False, poll_timeout = 7,
                  read_timeout = Failed SSH_ERROR\<rparr>] @
               [\<lparr>is_open = True, is_eof = False, poll_timeout = 2,
                  read_timeout = Delivered ''ab''\<rparr>] @
               [\<lparr>is_open = True, is_eof = False, poll_timeout = 0,
                  read_timeout = Failed SSH_ERROR\<rparr>]\<rparr>
   = Inr (Some ''abllo'',
          [ChannelNew, OpenSession, RequestExec, SendEof, ChannelClose, ChannelFree])"
proof -
  let ?a = "\<lparr>is_open = True, is_eof = False, poll_timeout = 5,
             read_timeout = Delivered ''hello''\<rparr>"
  let ?f = "\<lparr>is_open = True, is_eof = False, poll_timeout = 7,
             read_timeout = Failed SSH_ERROR\<rparr>"
  let ?b = "\<lparr>is_open = True, is_eof = False, poll_timeout = 2, read_timeout = Delivered ''ab''\<rparr>"
  let ?z = "\<lparr>is_open = True, is_eof = False, poll_timeout = 0,
             read_timeout = Failed SSH_ERROR\<rparr>"
  let ?t = "\<lparr>channel_new = True, open_session_rc = SSH_OK, request_exec_rc = SSH_OK,
             calloc_ok = True, cycles = [?a, ?f] @ [?b] @ [?z]\<rparr>"
  have ca: "chunk ?a = ''hello''" and cf: "chunk ?f = []" and cb: "chunk ?b = ''ab''"
    by (simp_all add: chunk_def)
  have h1: "list_all runs [?a, ?f]"
    by (simp add: runs_def)
  have h2: "list_all fits [?a, ?f]"
    by (simp add: fits_def ca cf buffer_capacity_def)
  have h3: "successful ?b"
    by (simp add: successful_def runs_def delivers_def fits_def cb buffer_capacity_def)
  have h4: "list_all (\<lambda>c. \<not> delivers c) (takeWhile runs [?z])"
    by (simp add: runs_def)
  from exec_command_last_chunk_overlays [OF h1 h2 h3 h4 refl]
  obtain m0 n0 where
    before: "drain [?a, ?f] (Some []) 0 = Inr (Some m0, n0)"
    and run: "ubnt_exec_command ?t =
            (case rstrip_buffer (Some (chunk ?b @ drop (length (chunk ?b)) m0)) of
               Inl e \<Rightarrow> Inl e
             | Inr out \<Rightarrow>
                 Inr (out, [ChannelNew, OpenSession, RequestExec,
                            SendEof, ChannelClose, ChannelFree]))"
    by blast
  have "drain [?a, ?f] (Some []) 0 = Inr (Some ''hello'', 5 + SSH_ERROR)"
    by (simp add: ca buffer_capacity_def read_into_def)
  with before have m0: "m0 = ''hello''" by simp
  have "rstrip_buffer (Some ''abllo'') = Inr (Some ''abllo'')"
    by (simp add: rstrip_buffer_def cstr_def buffer_capacity_def rstrip_def isspace_def)
  with run show ?thesis
    by (simp add: m0 cb)
qed

text \<open>
  Against the claim as stated: the chunks \<open>"hello"\<close> and then \<open>"ab"\<close> leave
  \<open>"abllo"\<close>, not \<open>"ab"\<close>, in the returned buffer.
\<close>

theorem exec_command_last_chunk_overlays_counterexample:
  "ubnt_exec_command
     \<lparr>channel_new = True, open_session_rc = SSH_OK, request_exec_rc = SSH_OK,
      calloc_ok = True,
      cycles = [\<lparr>is_open = True, is_eof = False, poll_timeout = 5,
                  read_timeout = Delivered ''hello''\<rparr>,
                \<lparr>is_open = True, is_eof = False, poll_timeout = 2,
                  read_timeout = Delivered ''ab''\<rparr>]\<rparr>
   = Inr (Some ''abllo'',
          [ChannelNew, OpenSession, RequestExec, SendEof, ChannelClose, ChannelFree]) \<and>
   ubnt_exec_command_h
     \<lparr>channel_new = True, open_session_rc = SSH_OK, request_exec_rc = SSH_OK,
      calloc_ok = True,
      cycles = [\<lparr>is_open = True, is_eof = False, poll_timeout = 5,
                  read_timeout = Delivered ''hello''\<rparr>,
                \<lparr>is_open = True, is_eof = False, poll_timeout = 2,
                  read_timeout = Delivered ''ab''\<rparr>]\<rparr>
   = Inr (Some ''abllo'',
          [ChannelNew, OpenSession, RequestExec, SendEof, ChannelClose, ChannelFree])"
  by (simp add: ubnt_exec_command_def ubnt_exec_command_h_def chunk_def read_into_def
        buffer_capacity_def rstrip_buffer_def cstr_def rstrip_def isspace_def)

text \<open>
  A read that fills the buffer to its last byte leaves no terminator, and the
  \<open>strlen\<close> of \<open>rstrip\<close> reads past the end of the buffer.
\<close>

lemma cstr_full_buffer:
  "length mem = buffer_capacity \<Longrightarrow> NUL \<notin> set mem \<Longrightarrow>
     rstrip_buffer (Some mem) = Inl ReadPastEnd"
  by (simp add: rstrip_buffer_def cstr_def)

text \<open>
  The header's \<open>ubnt_exec_command\<close> returns NULL when the channel, the session or the
  exec request fails, and releases the channel whenever there is one.
\<close>

lemma ubnt_exec_command_h_failure:
  assumes "\<not> channel_new t \<or> open_session_rc t \<noteq> SSH_OK \<or> request_exec_rc t \<noteq> SSH_OK"
  shows "\<exists>calls. ubnt_exec_command_h t = Inr (None, calls) \<and>
           (channel_new t \<longrightarrow>
              drop (length calls - 3) calls = [SendEof, ChannelClose, ChannelFree])"
  using assms by (auto simp: ubnt_exec_command_h_def)

text \<open>
  C4. The claim: when channel creation, the open-session step or the exec request
  fails, \<open>ubnt_exec_command\<close> returns NULL, after the cleanup whenever a channel
  exists. The header's version does this. The version of \<open>ubnt.c\<close> tests none of the
  three results and allocates the buffer in any case: with the session refused
  (\<open>SSH_ERROR\<close>) on a channel that then reports closed, it returns the allocated,
  empty buffer.
\<close>

theorem ubnt_exec_command_returns_buffer_after_failed_open:
  "ubnt_exec_command
     \<lparr>channel_new = True, open_session_rc = SSH_ERROR, request_exec_rc = SSH_ERROR,
      calloc_ok = True, cycles = []\<rparr>
   = Inr (Some [], [ChannelNew, OpenSession, RequestExec, SendEof, ChannelClose, ChannelFree])"
  by (simp add: ubnt_exec_command_def rstrip_buffer_def cstr_def buffer_capacity_def rstrip_def)

section \<open>Bulk file puller: properties\<close>

lemma fits_row_read:
  "list_all fits_row (scp_reads t) \<Longrightarrow> fits_row (ssh_scp_read t k)"
  by (simp add: ssh_scp_read_def answer_def fits_row_def list_all_length)

text \<open>A read of at most one row, into a row of the array, stays inside the array.\<close>

lemma scp_read_step_ok:
  assumes "list_all fits_row (scp_reads t)" and "i < n" and "S = nat (request_size t)"
  shows "\<exists>tmp'. scp_read_step t S n i rc tmp = Inr (rc + scp_read_rc t i, tmp')"
proof (cases "ssh_scp_read t i")
  case (Failed e)
  then show ?thesis by (simp add: scp_read_step_def scp_read_rc_def)
next
  case (Delivered d)
  with fits_row_read [OF assms(1), of i] have "length d \<le> SCP_READ_SIZE"
    by (simp add: fits_row_def)
  then have "length (take S d) \<le> SCP_READ_SIZE" by simp
  moreover from assms(2) have "Suc i * SCP_READ_SIZE \<le> n * SCP_READ_SIZE"
    by (intro mult_le_mono1) simp
  ultimately have "i * SCP_READ_SIZE + length (take S d) \<le> n * SCP_READ_SIZE" by simp
  with Delivered assms(3) show ?thesis
    by (simp add: scp_read_step_def scp_read_rc_def Let_def del: length_take)
qed

text \<open>
  The loop started at \<open>i < n\<close> returns; it stops after the first read whose following
  pull request answers end-of-file, or at \<open>n\<close>; \<open>rc\<close> grows by what the reads
  returned.
\<close>

lemma scp_loop_spec:
  assumes "list_all fits_row (scp_reads t)" and "S = nat (request_size t)" and "i < n"
  shows "\<exists>i' tmp'.
           scp_loop t S n i rc tmp = Inr (rc + (\<Sum>k = i..<i'. scp_read_rc t k), i', tmp') \<and>
           i < i' \<and> i' \<le> n \<and>
           (\<forall>k. i < k \<and> k < i' \<longrightarrow> ssh_scp_pull_request t k \<noteq> SSH_SCP_REQUEST_EOF) \<and>
           (i' < n \<longrightarrow> ssh_scp_pull_request t i' = SSH_SCP_REQUEST_EOF)"
  using assms
proof (induction t S n i rc tmp rule: scp_loop.induct)
  case (1 t S n i rc tmp)
  from scp_read_step_ok [OF "1.prems"(1) "1.prems"(3) "1.prems"(2)]
  obtain tmp1 where step: "scp_read_step t S n i rc tmp = Inr (rc + scp_read_rc t i, tmp1)"
    by blast
  show ?case
  proof (cases "ssh_scp_pull_request t (Suc i) \<noteq> SSH_SCP_REQUEST_EOF \<and> Suc i < n")
    case False
    then have "scp_loop t S n i rc tmp = Inr (rc + scp_read_rc t i, Suc i, tmp1)"
      using step by (subst scp_loop.simps) auto
    moreover have "(\<Sum>k = i..<Suc i. scp_read_rc t k) = scp_read_rc t i" by simp
    ultimately show ?thesis using False "1.prems"(3)
      by (intro exI [of _ "Suc i"] exI [of _ tmp1]) auto
  next
    case True
    then have unfold: "scp_loop t S n i rc tmp =
        scp_loop t S n (Suc i) (rc + scp_read_rc t i) tmp1"
      using step by (subst scp_loop.simps) auto
    from "1.IH" [OF step refl True "1.prems"(1) "1.prems"(2)] True
    obtain i' tmp' where ih:
      "scp_loop t S n (Suc i) (rc + scp_read_rc t i) tmp1 =
         Inr (rc + scp_read_rc t i + (\<Sum>k = Suc i..<i'. scp_read_rc t k), i', tmp')"
      "Suc i < i'" "i' \<le> n"
      "\<forall>k. Suc i < k \<and> k < i' \<longrightarrow> ssh_scp_pull_request t k \<noteq> SSH_SCP_REQUEST_EOF"
      "i' < n \<longrightarrow> ssh_scp_pull_request t i' = SSH_SCP_REQUEST_EOF"
      by blast
    have sum: "(\<Sum>k = i..<i'. scp_read_rc t k) =
        scp_read_rc t i + (\<Sum>k = Suc i..<i'. scp_read_rc t k)"
      using ih(2) by (simp add: sum.atLeast_Suc_lessThan)
    have "\<forall>k. i < k \<and> k < i' \<longrightarrow> ssh_scp_pull_request t k \<noteq> SSH_SCP_REQUEST_EOF"
    proof (intro allI impI)
      fix k assume k: "i < k \<and> k < i'"
      show "ssh_scp_pull_request t k \<noteq> SSH_SCP_REQUEST_EOF"
      proof (cases "k = Suc i")
        case eq: True
        with True show ?thesis by simp
      next
        case False
        with k ih(4) show ?thesis by simp
      qed
    qed
    with unfold ih sum show ?thesis
      by (intro exI [of _ i'] exI [of _ tmp']) (simp add: add.assoc)
  qed
qed

text \<open>
  C5. The claim: the number of read calls is \<open>ceil(S/2048)\<close> unless end-of-file
  comes earlier, and the bytes put into the caller's buffer number the smaller of \<open>S\<close>
  and the bytes delivered. The code's budget is \<open>S / 2048 + 1\<close> in integer division,
  one more than \<open>ceil(S/2048)\<close> when 2048 divides \<open>S\<close>, and the loop is a
  \<open>do ... while\<close>: it reads once before it looks at any answer. The copy into the
  caller's buffer is \<open>memcpy(buffer, *tmp_buffer, file_size)\<close>, always \<open>S\<close> bytes.
  For an offered file of size \<open>S \<ge> 0\<close> whose reads deliver at most 2048 bytes each:
  the function returns; it makes at least one read and at most \<open>S div 2048 + 1\<close>; no
  pull request after an earlier read answered end-of-file; if it stops short of the
  budget, the pull request after its last read answered end-of-file; it copies exactly
  \<open>S\<close> bytes; and it returns the sum of what the reads returned.
\<close>

theorem copy_config_read_budget:
  assumes init: "scp_init_rc t = CONNECTION_OK"
    and offer: "ssh_scp_pull_request t 0 = SSH_SCP_REQUEST_NEWFILE"
    and size: "0 \<le> request_size t"
    and rows: "list_all fits_row (scp_reads t)"
  shows "\<exists>r. ubnt_copy_config_to_buffer t = Inr r \<and>
           1 \<le> reads r \<and>
           reads r \<le> nat (request_size t div 2048) + 1 \<and>
           (\<forall>k. 1 \<le> k \<and> k < reads r \<longrightarrow> ssh_scp_pull_request t k \<noteq> SSH_SCP_REQUEST_EOF) \<and>
           (reads r < nat (request_size t div 2048) + 1 \<longrightarrow>
              ssh_scp_pull_request t (reads r) = SSH_SCP_REQUEST_EOF) \<and>
           (\<exists>bytes. copied r = Some bytes \<and> length bytes = nat (request_size t)) \<and>
           ret r = (\<Sum>k<reads r. scp_read_rc t k)"
proof -
  let ?n = "nat (request_size t div 2048) + 1"
  have "0 < ?n" by simp
  from scp_loop_spec [OF rows refl this, of 0 Map.empty]
  obtain i' tmp' where loop:
    "scp_loop t (nat (request_size t)) ?n 0 0 Map.empty =
       Inr ((\<Sum>k = 0..<i'. scp_read_rc t k), i', tmp')"
    "0 < i'" "i' \<le> ?n"
    "\<forall>k. 0 < k \<and> k < i' \<longrightarrow> ssh_scp_pull_request t k \<noteq> SSH_SCP_REQUEST_EOF"
    "i' < ?n \<longrightarrow> ssh_scp_pull_request t i' = SSH_SCP_REQUEST_EOF"
    by auto
  let ?r = "\<lparr>ret = (\<Sum>k = 0..<i'. scp_read_rc t k), reads = i',
             copied = Some (map tmp' [0..<nat (request_size t)])\<rparr>"
  have "ubnt_copy_config_to_buffer t = Inr ?r"
    using init offer size loop(1)
    by (simp add: ubnt_copy_config_to_buffer_def SCP_READ_SIZE_def Let_def)
  moreover have "(\<Sum>k = 0..<i'. scp_read_rc t k) = (\<Sum>k<i'. scp_read_rc t k)"
    by (simp add: atLeast0LessThan)
  ultimately show ?thesis using loop(2-5)
    by (intro exI [of _ ?r]) (simp add: Suc_le_eq)
qed

text \<open>A three-byte file, delivered by its first read and followed by end-of-file.\<close>

theorem copy_config_read_budget_witness:
  "\<exists>r. ubnt_copy_config_to_buffer
          \<lparr>scp_init_rc = CONNECTION_OK,
           pull_requests = [SSH_SCP_REQUEST_NEWFILE, SSH_SCP_REQUEST_EOF],
           request_size = 3, scp_reads = [Delivered ''abc'']\<rparr> = Inr r \<and> reads r = 1"
proof -
  let ?t = "\<lparr>scp_init_rc = CONNECTION_OK,
             pull_requests = [SSH_SCP_REQUEST_NEWFILE, SSH_SCP_REQUEST_EOF],
             request_size = 3, scp_reads = [Delivered ''abc'']\<rparr>"
  have h1: "scp_init_rc ?t = CONNECTION_OK"
    by simp
  have h2: "ssh_scp_pull_request ?t 0 = SSH_SCP_REQUEST_NEWFILE"
    by (simp add: ssh_scp_pull_request_def answer_def)
  have h3: "0 \<le> request_size ?t"
    by simp
  have h4: "list_all fits_row (scp_reads ?t)"
    by (simp add: fits_row_def SCP_READ_SIZE_def)
  from copy_config_read_budget [OF h1 h2 h3 h4]
  obtain r where "ubnt_copy_config_to_buffer ?t = Inr r" "1 \<le> reads r"
    "reads r \<le> nat (request_size ?t div 2048) + 1"
    by blast
  then have "ubnt_copy_config_to_buffer ?t = Inr r \<and> reads r = 1"
    by simp
  then show ?thesis ..
qed

text \<open>
  Against the claim as stated: an empty file (\<open>S = 0\<close>, \<open>ceil(0/2048) = 0\<close>) is read
  once, with end-of-file answered as early as it can be; and of a 10-byte file whose
  single read delivers 4 bytes before end-of-file, 10 bytes are copied, 6 of them
  never written.
\<close>

theorem copy_config_read_budget_counterexample:
  "ubnt_copy_config_to_buffer
      \<lparr>scp_init_rc = CONNECTION_OK,
       pull_requests = [SSH_SCP_REQUEST_NEWFILE, SSH_SCP_REQUEST_EOF],
       request_size = 0, scp_reads = [Delivered []]\<rparr>
     = Inr \<lparr>ret = 0, reads = 1, copied = Some []\<rparr> \<and>
   (0 + 2047) div 2048 < (1 :: nat) \<and>
   ubnt_copy_config_to_buffer
      \<lparr>scp_init_rc = CONNECTION_OK,
       pull_requests = [SSH_SCP_REQUEST_NEWFILE, SSH_SCP_REQUEST_EOF],
       request_size = 10, scp_reads = [Delivered ''abcd'']\<rparr>
     = Inr \<lparr>ret = 4, reads = 1,
            copied = Some [Some CHR ''a'', Some CHR ''b'', Some CHR ''c'', Some CHR ''d'',
                           None, None, None, None, None, None]\<rparr> \<and>
   min 10 4 < (10 :: nat)"
  by code_simp

end
